theory Spec2Isabelle
  imports Complex_Main
begin

text \<open>
  The client of the live map: the order in which participants are listed and how it
  follows the roster snapshots of the backend, the choice of the socket endpoint, the
  geolocation watch with its throttle and its single fallback, focus selection and the
  camera of the map. Each handler of the components is a function on the component's
  state; clock readings, the URL parser and the platform's answers are inputs.
\<close>

section \<open>Data model (types.ts)\<close>

text \<open>
  \<^verbatim>\<open>LocationUpdate = { lat, lng }\<close> and
  \<^verbatim>\<open>LiveUser = { id, lat, lng, updatedAt }\<close>. Coordinates are JavaScript numbers
  that the client only stores and forwards; they are modelled as (finite) reals. The
  participant id is the socket id, a string; \<open>updatedAt\<close> is an epoch time in ms.
  The field \<open>id\<close> is called \<open>user_id\<close> here, \<open>id\<close> being the identity function
  of HOL.
\<close>

record location_update =
  lat :: real
  lng :: real

record live_user = location_update +
  user_id :: string
  updatedAt :: int

section \<open>Display order reconciliation (App, effect on \<open>users\<close>)\<close>

text \<open>
  The loop \<^verbatim>\<open>for (const user of users) { if (known.has(user.id)) continue;
  additions.push(user.id); known.add(user.id); }\<close> with its two mutable locals
  \<open>known\<close> and \<open>additions\<close> passed as accumulators.
\<close>

fun additions_loop :: "live_user list \<Rightarrow> string set \<Rightarrow> string list \<Rightarrow> string list" where
  "additions_loop [] known additions = additions"
| "additions_loop (user # rest) known additions =
     (if user_id user \<in> known then additions_loop rest known additions
      else additions_loop rest (insert (user_id user) known) (additions @ [user_id user]))"

text \<open>The updater passed to \<^verbatim>\<open>setUserOrder\<close>: \<open>prev\<close> is the stored order.\<close>

definition reconcile :: "string list \<Rightarrow> live_user list \<Rightarrow> string list" where
  "reconcile prev users =
     (let activeIds = set (map user_id users);
          kept = filter (\<lambda>i. i \<in> activeIds) prev;
          known = set kept
      in kept @ additions_loop users known [])"

text \<open>
  The ids of a list in the order of their first occurrence (used only to state
  properties; the code has no such function).
\<close>

fun first_occurrences :: "'a list \<Rightarrow> 'a list" where
  "first_occurrences [] = []"
| "first_occurrences (x # xs) = x # first_occurrences (filter (\<lambda>y. y \<noteq> x) xs)"

section \<open>The displayed list (App, \<open>orderedUsers\<close>)\<close>

text \<open>
  \<^verbatim>\<open>new Map(users.map((u) => [u.id, u]))\<close>: the entries are inserted in roster order,
  so a later entry with the same id replaces an earlier one.
\<close>

definition byId_of :: "live_user list \<Rightarrow> (string \<rightharpoonup> live_user)" where
  "byId_of users = foldl (\<lambda>m u. m(user_id u \<mapsto> u)) Map.empty users"

text \<open>
  \<^verbatim>\<open>for (const user of users) { if (!existing.has(user.id)) ordered.push(user); }\<close>;
  \<open>existing\<close> is not updated inside the loop.
\<close>

fun push_missing :: "live_user list \<Rightarrow> string set \<Rightarrow> live_user list \<Rightarrow> live_user list" where
  "push_missing [] existing ordered = ordered"
| "push_missing (user # rest) existing ordered =
     (if user_id user \<notin> existing then push_missing rest existing (ordered @ [user])
      else push_missing rest existing ordered)"

text \<open>
  \<^verbatim>\<open>userOrder.map((id) => byId.get(id)).filter(Boolean)\<close> keeps the entries that were
  found (an object is truthy, \<^verbatim>\<open>undefined\<close> is not).
\<close>

definition orderedUsers :: "live_user list \<Rightarrow> string list \<Rightarrow> live_user list" where
  "orderedUsers users userOrder =
     (let byId = byId_of users;
          ordered = map the (filter (\<lambda>r. r \<noteq> None) (map byId userOrder))
      in if length ordered = length users then ordered
         else push_missing users (set (map user_id ordered)) ordered)"

section \<open>Endpoint resolution (lib/socket, \<open>resolveSocketUrl\<close>)\<close>

text \<open>
  Strings are the UTF-8 encodings of the program's strings. \<^verbatim>\<open>String.prototype.trim\<close>
  removes from both ends the code points of the productions WhiteSpace and LineTerminator
  of the language: TAB, VT, FF, U+FEFF and the space separators (SP, U+00A0, U+1680,
  U+2000 to U+200A, U+202F, U+205F, U+3000), and LF, CR, U+2028, U+2029. Their encodings:
\<close>

definition white_space_encodings :: "string list" where
  "white_space_encodings =
     [[CHR 0x09], [CHR 0x0A], [CHR 0x0B], [CHR 0x0C], [CHR 0x0D], [CHR 0x20],
      [CHR 0xC2, CHR 0xA0],
      [CHR 0xE1, CHR 0x9A, CHR 0x80],
      [CHR 0xE2, CHR 0x80, CHR 0x80], [CHR 0xE2, CHR 0x80, CHR 0x81],
      [CHR 0xE2, CHR 0x80, CHR 0x82], [CHR 0xE2, CHR 0x80, CHR 0x83],
      [CHR 0xE2, CHR 0x80, CHR 0x84], [CHR 0xE2, CHR 0x80, CHR 0x85],
      [CHR 0xE2, CHR 0x80, CHR 0x86], [CHR 0xE2, CHR 0x80, CHR 0x87],
      [CHR 0xE2, CHR 0x80, CHR 0x88], [CHR 0xE2, CHR 0x80, CHR 0x89],
      [CHR 0xE2, CHR 0x80, CHR 0x8A],
      [CHR 0xE2, CHR 0x80, CHR 0xA8], [CHR 0xE2, CHR 0x80, CHR 0xA9],
      [CHR 0xE2, CHR 0x80, CHR 0xAF],
      [CHR 0xE2, CHR 0x81, CHR 0x9F],
      [CHR 0xE3, CHR 0x80, CHR 0x80],
      [CHR 0xEF, CHR 0xBB, CHR 0xBF]]"

text \<open>
  Removing, as long as there is one, a leading occurrence of one of the given byte
  sequences. In a UTF-8 string a leading (or trailing) occurrence of the encoding of a
  code point is that code point, first (or last) in the string.
\<close>

function strip_leading :: "string list \<Rightarrow> string \<Rightarrow> string" where
  "strip_leading ws s =
     (case find (\<lambda>w. w \<noteq> [] \<and> take (length w) s = w) ws of
        None \<Rightarrow> s
      | Some w \<Rightarrow> strip_leading ws (drop (length w) s))"
  by pat_completeness auto
termination
proof (relation "measure (\<lambda>(ws, s). length s)")
  show "wf (measure (\<lambda>(ws, s). length s))"
    by simp
next
  fix ws :: "string list" and s w :: string
  assume "find (\<lambda>w. w \<noteq> [] \<and> take (length w) s = w) ws = Some w"
  then have w: "w \<noteq> []" and t: "take (length w) s = w"
    by (auto simp: find_Some_iff)
  from t have "length (take (length w) s) = length w"
    by simp
  then have "length w \<le> length s"
    by simp
  with w show "((ws, drop (length w) s), (ws, s)) \<in> measure (\<lambda>(ws, s). length s)"
    by (cases w) simp_all
qed

declare strip_leading.simps [simp del]

definition trim :: "string \<Rightarrow> string" where
  "trim s =
     rev (strip_leading (map rev white_space_encodings)
            (rev (strip_leading white_space_encodings s)))"

text \<open>
  What the code reads of a parsed \<^verbatim>\<open>URL\<close> (\<open>hostname\<close> and the serialisation
  \<open>href\<close> that \<^verbatim>\<open>toString()\<close> returns) and of \<^verbatim>\<open>window.location\<close>
  (\<open>hostname\<close> and \<open>origin\<close>).
\<close>

record host_part =
  hostname :: string

record url = host_part +
  href :: string

record location = host_part +
  origin :: string

text \<open>
  The platform's URL parser is a parameter: \<open>parse_url s = None\<close> stands for
  \<^verbatim>\<open>new URL(s)\<close> throwing. \<open>env_url\<close> is \<^verbatim>\<open>import.meta.env.VITE_SOCKET_URL\<close>
  (\<open>None\<close> when undefined) and \<open>window\<close> is \<open>None\<close> when
  \<^verbatim>\<open>typeof window === "undefined"\<close>.
\<close>

definition resolveSocketUrl ::
  "(string \<Rightarrow> url option) \<Rightarrow> string option \<Rightarrow> location option \<Rightarrow> string" where
  "resolveSocketUrl parse_url env_url window =
     (let envUrl = map_option trim env_url;
          fallbackUrl = (case window of None \<Rightarrow> ''http://localhost:3001'' | Some w \<Rightarrow> origin w)
      in (case envUrl of
            None \<Rightarrow> fallbackUrl
          | Some e \<Rightarrow>
              (if e = [] then fallbackUrl
               else (case parse_url e of
                       None \<Rightarrow> e
                     | Some parsed \<Rightarrow>
                         (let isLocalhost =
                                (hostname parsed = ''localhost'' \<or>
                                 hostname parsed = ''127.0.0.1'' \<or>
                                 hostname parsed = ''::1'')
                          in (case window of
                                None \<Rightarrow> href parsed
                              | Some w \<Rightarrow>
                                  (if isLocalhost \<and> hostname w \<noteq> ''localhost'' \<and>
                                      hostname w \<noteq> ''127.0.0.1''
                                   then origin w
                                   else href parsed)))))))"

section \<open>Map surface (LiveMap, effect on \<open>focusTarget?.key\<close>)\<close>

record map_focus_target = location_update +
  key :: int

text \<open>MapLibre centres are \<open>[lng, lat]\<close> pairs. Zoom is a finite number.\<close>

record viewport =
  center :: "real \<times> real"
  zoom :: real
  bearing :: real
  pitch :: real

definition initial_viewport :: viewport where
  "initial_viewport = \<lparr>center = (32.5892, -25.9653), zoom = 13, bearing = 0, pitch = 0\<rparr>"

text \<open>The body of the effect.\<close>

definition focus_effect :: "map_focus_target option \<Rightarrow> viewport \<Rightarrow> viewport" where
  "focus_effect focusTarget v =
     (case focusTarget of
        None \<Rightarrow> v
      | Some ft \<Rightarrow> v\<lparr>center := (lng ft, lat ft), zoom := max (zoom v) 15\<rparr>)"

text \<open>
  The dependency of the effect is \<^verbatim>\<open>focusTarget?.key\<close> (\<open>None\<close> for
  \<^verbatim>\<open>undefined\<close>). React runs the effect when the component mounts and after a render
  whose dependency differs from the previous render's.
\<close>

definition focus_dep :: "map_focus_target option \<Rightarrow> int option" where
  "focus_dep focusTarget = map_option key focusTarget"

definition live_map_mount :: "map_focus_target option \<Rightarrow> viewport" where
  "live_map_mount focusTarget = focus_effect focusTarget initial_viewport"

definition live_map_rerender ::
  "map_focus_target option \<Rightarrow> map_focus_target option \<Rightarrow> viewport \<Rightarrow> viewport" where
  "live_map_rerender prevTarget focusTarget v =
     (if focus_dep focusTarget \<noteq> focus_dep prevTarget then focus_effect focusTarget v else v)"

section \<open>The App component: state, roster handler, geolocation, focus\<close>

text \<open>
  A payload as it arrives at run time: the handler is typed for an array of users but
  checks \<^verbatim>\<open>Array.isArray\<close> first.
\<close>

datatype js_payload =
    JSArray "live_user list"
  | JSUndefined
  | JSNull
  | JSBoolean bool
  | JSNumber real
  | JSString string
  | JSObject "(string \<times> string) list"

fun Array_isArray :: "js_payload \<Rightarrow> bool" where
  "Array_isArray (JSArray _) = True"
| "Array_isArray _ = False"

record watch_options =
  enableHighAccuracy :: bool
  maximumAge :: int
  timeout :: int

record geolocation_position_error =
  code :: int
  message :: string

text \<open>
  The state of the component (\<^verbatim>\<open>useState\<close> and \<^verbatim>\<open>useRef\<close> cells), the two
  locals \<open>watchId\<close> and \<open>fallbackMode\<close> of the running geolocation effect, and the
  part of the platform the handlers act on: the registered position watches with the
  next free watch id, and the trace \<open>emitted\<close> of
  \<^verbatim>\<open>socket.emit("location:update", ...)\<close> calls, each with the clock reading of the
  callback that made it.
\<close>

record app =
  me :: "location_update option"
  users :: "live_user list"
  userOrder :: "string list"
  geoError :: "string option"
  isGeoRetrying :: bool
  mapFocusTarget :: "map_focus_target option"
  focusedUserId :: "string option"
  lastSentAt :: int
  geoRetryTimeoutRef :: "nat option"
  watchId :: int
  fallbackMode :: bool
  watches :: "(int \<times> watch_options) list"
  nextWatchId :: int
  emitted :: "(int \<times> location_update) list"

text \<open>
  The state after the first render, before any effect has run. \<open>initialGeoError\<close>
  is the result of \<^verbatim>\<open>getInitialGeoError()\<close>; the platform has no watch registered and
  hands out \<open>firstWatchId\<close> next.
\<close>

definition initial_app :: "string option \<Rightarrow> int \<Rightarrow> app" where
  "initial_app initialGeoError firstWatchId =
     \<lparr>me = None, users = [], userOrder = [], geoError = initialGeoError,
      isGeoRetrying = False, mapFocusTarget = None, focusedUserId = None,
      lastSentAt = 0, geoRetryTimeoutRef = None, watchId = -1, fallbackMode = False,
      watches = [], nextWatchId = firstWatchId, emitted = []\<rparr>"

subsection \<open>Roster\<close>

text \<open>The \<^verbatim>\<open>users:update\<close> handler.\<close>

definition handler :: "js_payload \<Rightarrow> app \<Rightarrow> app" where
  "handler payload s =
     (case payload of
        JSArray payload_users \<Rightarrow> s\<lparr>users := payload_users\<rparr>
      | _ \<Rightarrow> s)"

text \<open>The effect with dependency \<open>[users]\<close>: \<^verbatim>\<open>setUserOrder((prev) => ...)\<close>.\<close>

definition users_effect :: "app \<Rightarrow> app" where
  "users_effect s = s\<lparr>userOrder := reconcile (userOrder s) (users s)\<rparr>"

text \<open>
  One \<^verbatim>\<open>users:update\<close> event: the handler runs; when it stored a new array the
  component renders again and the effect on \<open>users\<close> runs. When the handler returned
  early no state cell changed and nothing else happens.
\<close>

definition on_users_update :: "js_payload \<Rightarrow> app \<Rightarrow> app" where
  "on_users_update payload s =
     (if Array_isArray payload then users_effect (handler payload s) else handler payload s)"

subsection \<open>Geolocation\<close>

text \<open>
  The messages, as UTF-8 byte strings (a-tilde is C3 A3, c-cedilla C3 A7, i-acute C3 AD).
\<close>

definition msg_permission_denied :: string where
  "msg_permission_denied =
     ''Permiss'' @ [CHR 0xC3, CHR 0xA3] @ ''o de geolocaliza'' @
     [CHR 0xC3, CHR 0xA7, CHR 0xC3, CHR 0xA3] @ ''o negada.''"

definition msg_unavailable :: string where
  "msg_unavailable =
     ''Sinal de geolocaliza'' @ [CHR 0xC3, CHR 0xA7, CHR 0xC3, CHR 0xA3] @
     ''o indispon'' @ [CHR 0xC3, CHR 0xAD] @ ''vel.''"

definition msg_timeout :: string where
  "msg_timeout = ''Timeout expired. A tentar novamente...''"

definition msg_default :: string where
  "msg_default =
     ''Erro ao obter localiza'' @ [CHR 0xC3, CHR 0xA7, CHR 0xC3, CHR 0xA3] @ ''o.''"

definition msg_fallback :: string where
  "msg_fallback =
     ''Timeout expired. A tentar modo de localiza'' @
     [CHR 0xC3, CHR 0xA7, CHR 0xC3, CHR 0xA3] @ ''o padr'' @ [CHR 0xC3, CHR 0xA3] @ ''o...''"

definition geolocationErrorMessage :: "geolocation_position_error \<Rightarrow> string" where
  "geolocationErrorMessage err =
     (if code err = 1 then msg_permission_denied
      else if code err = 2 then msg_unavailable
      else if code err = 3 then msg_timeout
      else if message err \<noteq> [] then message err
      else msg_default)"

text \<open>\<^verbatim>\<open>navigator.geolocation.watchPosition\<close> and \<^verbatim>\<open>clearWatch\<close>.\<close>

definition watchPosition :: "watch_options \<Rightarrow> app \<Rightarrow> int \<times> app" where
  "watchPosition opts s =
     (nextWatchId s,
      s\<lparr>watches := watches s @ [(nextWatchId s, opts)], nextWatchId := nextWatchId s + 1\<rparr>)"

definition clearWatch :: "int \<Rightarrow> app \<Rightarrow> app" where
  "clearWatch i s = s\<lparr>watches := filter (\<lambda>w. fst w \<noteq> i) (watches s)\<rparr>"

definition startWatch :: "bool \<Rightarrow> int \<Rightarrow> int \<Rightarrow> app \<Rightarrow> app" where
  "startWatch high_accuracy timeout_ms maximum_age s =
     (case watchPosition
             \<lparr>enableHighAccuracy = high_accuracy, maximumAge = maximum_age,
              timeout = timeout_ms\<rparr> s of
        (i, s') \<Rightarrow> s'\<lparr>watchId := i\<rparr>)"

text \<open>
  \<^verbatim>\<open>if (geoRetryTimeoutRef.current !== null) { window.clearTimeout(...); ... = null; }\<close>.
  The platform's timer table is not part of the state.
\<close>

definition clear_retry_timeout :: "app \<Rightarrow> app" where
  "clear_retry_timeout s =
     (case geoRetryTimeoutRef s of None \<Rightarrow> s | Some _ \<Rightarrow> s\<lparr>geoRetryTimeoutRef := None\<rparr>)"

text \<open>
  The success callback of the watch; \<open>now\<close> is the value \<^verbatim>\<open>Date.now()\<close> returns in
  it. \<^verbatim>\<open>setGeoError((current) => (current ? null : current))\<close> clears a non-empty
  message.
\<close>

definition watch_success :: "int \<Rightarrow> location_update \<Rightarrow> app \<Rightarrow> app" where
  "watch_success now pos s =
     (let s1 = s\<lparr>me := Some pos,
                 geoError := (case geoError s of
                                None \<Rightarrow> None
                              | Some current \<Rightarrow> if current \<noteq> [] then None else Some current),
                 isGeoRetrying := False\<rparr>;
          s2 = clear_retry_timeout s1
      in if now - lastSentAt s2 < 2000 then s2
         else s2\<lparr>lastSentAt := now, emitted := emitted s2 @ [(now, pos)]\<rparr>)"

text \<open>The error callback of the watch.\<close>

definition watch_error :: "geolocation_position_error \<Rightarrow> app \<Rightarrow> app" where
  "watch_error err s =
     (if code err = 3 \<and> \<not> fallbackMode s then
        startWatch False 30000 15000
          (clearWatch (watchId s) (s\<lparr>fallbackMode := True, geoError := Some msg_fallback\<rparr>))
      else
        clear_retry_timeout
          (s\<lparr>geoError := Some (geolocationErrorMessage err), isGeoRetrying := False\<rparr>))"

text \<open>
  The geolocation effect (one activation): nothing happens without
  \<^verbatim>\<open>navigator.geolocation\<close> or outside a secure context; otherwise the two locals are
  initialised and the first watch starts.
\<close>

definition geolocation_effect :: "bool \<Rightarrow> bool \<Rightarrow> app \<Rightarrow> app" where
  "geolocation_effect has_geolocation is_secure_context s =
     (if \<not> has_geolocation \<or> \<not> is_secure_context then s
      else startWatch True 20000 3000 (s\<lparr>watchId := -1, fallbackMode := False\<rparr>))"

text \<open>The state in which the callbacks of an activation start to run.\<close>

abbreviation activated :: "string option \<Rightarrow> int \<Rightarrow> app" where
  "activated initialGeoError firstWatchId \<equiv>
     geolocation_effect True True (initial_app initialGeoError firstWatchId)"

text \<open>What the platform reports to the callbacks of the registered watch.\<close>

datatype geo_event =
    Position int location_update
  | Failure geolocation_position_error

fun geo_step :: "app \<Rightarrow> geo_event \<Rightarrow> app" where
  "geo_step s (Position now pos) = watch_success now pos s"
| "geo_step s (Failure err) = watch_error err s"

definition run_geo :: "geo_event list \<Rightarrow> app \<Rightarrow> app" where
  "run_geo events s = foldl geo_step s events"

fun is_timeout :: "geo_event \<Rightarrow> bool" where
  "is_timeout (Failure err) = (code err = 3)"
| "is_timeout (Position _ _) = False"

definition high_accuracy_tier :: watch_options where
  "high_accuracy_tier = \<lparr>enableHighAccuracy = True, maximumAge = 3000, timeout = 20000\<rparr>"

definition fallback_tier :: watch_options where
  "fallback_tier = \<lparr>enableHighAccuracy = False, maximumAge = 15000, timeout = 30000\<rparr>"

text \<open>The clock reading of the last transmitted sample of a trace, 0 when there is none.\<close>

definition last_sent_time :: "(int \<times> location_update) list \<Rightarrow> int" where
  "last_sent_time trace = (if trace = [] then 0 else fst (last trace))"

subsection \<open>Focus\<close>

text \<open>
  \<open>socket_id\<close> is \<^verbatim>\<open>socket.id\<close> (\<open>None\<close> when undefined, as while
  disconnected) and \<open>now\<close> the value of \<^verbatim>\<open>Date.now()\<close>.
\<close>

definition focusOnUser :: "string option \<Rightarrow> int \<Rightarrow> live_user \<Rightarrow> app \<Rightarrow> app" where
  "focusOnUser socket_id now user s =
     (if Some (user_id user) = socket_id then s
      else s\<lparr>focusedUserId := Some (user_id user),
             mapFocusTarget := Some \<lparr>lat = lat user, lng = lng user, key = now\<rparr>\<rparr>)"

section \<open>Sample data\<close>

text \<open>A participant with the given id, at the origin.\<close>

definition participant :: "string \<Rightarrow> live_user" where
  "participant i = \<lparr>lat = 0, lng = 0, user_id = i, updatedAt = 0\<rparr>"

text \<open>
  The platform's URL parser at the one URL of the example; the host of a URL with an
  IPv6 address is serialised in square brackets.
\<close>

definition sample_parse_url :: "string \<Rightarrow> url option" where
  "sample_parse_url s =
     (if s = ''http://[::1]:3001'' then
        Some \<lparr>hostname = ''[::1]'', href = ''http://[::1]:3001/''\<rparr>
      else None)"

text \<open>A page served to another device of the network.\<close>

definition lan_page :: location where
  "lan_page = \<lparr>hostname = ''192.168.1.20'', origin = ''http://192.168.1.20:5173''\<rparr>"

section \<open>Invariants used in the proofs\<close>

text \<open>
  Exactly one watch is registered, with the given options and id, the effect's locals
  agree with it, and the platform hands out the following id next.
\<close>

definition in_tier :: "watch_options \<Rightarrow> bool \<Rightarrow> int \<Rightarrow> app \<Rightarrow> bool" where
  "in_tier opts fb i s \<longleftrightarrow>
     watches s = [(i, opts)] \<and> watchId s = i \<and> fallbackMode s = fb \<and> nextWatchId s = i + 1"

text \<open>
  An activation whose first watch got id \<open>i\<close>: either still on that watch, or
  downgraded once, to the watch with the next id.
\<close>

definition started :: "int \<Rightarrow> app \<Rightarrow> bool" where
  "started i s \<longleftrightarrow>
     (\<exists>opts. in_tier opts False i s) \<or> (\<exists>opts. in_tier opts True i s) \<or>
     (\<exists>opts. in_tier opts True (i + 1) s)"

section \<open>Properties\<close>

subsection \<open>Reconciliation\<close>

lemma first_occurrences_filter:
  "first_occurrences (filter Q xs) = filter Q (first_occurrences xs)"
proof (induction xs rule: first_occurrences.induct)
  case 1
  show ?case by simp
next
  case (2 x xs)
  show ?case
  proof (cases "Q x")
    case True
    have "filter (\<lambda>y. y \<noteq> x) (filter Q xs) = filter Q (filter (\<lambda>y. y \<noteq> x) xs)"
      by (simp add: conj_commute)
    with True 2 show ?thesis by simp
  next
    case False
    have "filter Q (filter (\<lambda>y. y \<noteq> x) xs) = filter Q xs"
      using False by (auto intro: filter_cong)
    with False 2 show ?thesis by simp
  qed
qed

lemma set_first_occurrences: "set (first_occurrences xs) = set xs"
  by (induction xs rule: first_occurrences.induct) auto

lemma distinct_first_occurrences: "distinct (first_occurrences xs)"
  by (induction xs rule: first_occurrences.induct) (auto simp: set_first_occurrences)

lemma first_occurrences_distinct: "distinct xs \<Longrightarrow> first_occurrences xs = xs"
proof (induction xs)
  case Nil
  show ?case by simp
next
  case (Cons a xs)
  then have "filter (\<lambda>y. y \<noteq> a) xs = xs"
    by (auto simp: filter_id_conv)
  with Cons show ?case by simp
qed

lemma additions_loop_eq:
  "additions_loop roster known additions =
     additions @ filter (\<lambda>i. i \<notin> known) (first_occurrences (map user_id roster))"
proof (induction roster arbitrary: known additions)
  case Nil
  show ?case by simp
next
  case (Cons user rest)
  have fo: "first_occurrences (map user_id (user # rest)) =
      user_id user # filter (\<lambda>y. y \<noteq> user_id user) (first_occurrences (map user_id rest))"
    by (simp add: first_occurrences_filter)
  show ?case
  proof (cases "user_id user \<in> known")
    case True
    then have "filter (\<lambda>i. i \<notin> known)
        (filter (\<lambda>y. y \<noteq> user_id user) (first_occurrences (map user_id rest))) =
      filter (\<lambda>i. i \<notin> known) (first_occurrences (map user_id rest))"
      by (auto intro: filter_cong)
    with True show ?thesis
      unfolding fo by (simp add: Cons.IH)
  next
    case False
    have "filter (\<lambda>i. i \<notin> insert (user_id user) known) (first_occurrences (map user_id rest)) =
      filter (\<lambda>i. i \<notin> known)
        (filter (\<lambda>y. y \<noteq> user_id user) (first_occurrences (map user_id rest)))"
      by (auto intro: filter_cong)
    with False show ?thesis
      unfolding fo by (simp add: Cons.IH)
  qed
qed

lemma reconcile_eq:
  "reconcile prev roster =
     filter (\<lambda>i. i \<in> user_id ` set roster) prev @
     filter (\<lambda>i. i \<notin> set prev) (first_occurrences (map user_id roster))"
  unfolding reconcile_def Let_def additions_loop_eq
  by (auto simp: set_first_occurrences intro: filter_cong)

lemma set_reconcile: "set (reconcile prev roster) = user_id ` set roster"
  by (auto simp: reconcile_eq set_first_occurrences)

lemma distinct_reconcile: "distinct prev \<Longrightarrow> distinct (reconcile prev roster)"
  by (auto simp: reconcile_eq distinct_first_occurrences)

lemma distinct_foldl_reconcile:
  "distinct start \<Longrightarrow> distinct (foldl reconcile start snapshots)"
  by (induction snapshots arbitrary: start) (simp_all add: distinct_reconcile)

lemma distinct_singleton: "distinct xs \<Longrightarrow> set xs = {x} \<Longrightarrow> xs = [x]"
proof (cases xs)
  case Nil
  assume "set xs = {x}"
  with Nil show ?thesis by simp
next
  case (Cons y ys)
  assume d: "distinct xs" and s: "set xs = {x}"
  from s Cons have y: "y = x" by auto
  have "set ys \<subseteq> {x}" using s Cons by auto
  moreover have "x \<notin> set ys" using d Cons y by simp
  ultimately have "ys = []" by (cases ys) auto
  with Cons y show ?thesis by simp
qed

lemma additions_single:
  assumes "user_id ` set r = insert d known" and "d \<notin> known"
  shows "filter (\<lambda>i. i \<notin> known) (first_occurrences (map user_id r)) = [d]"
proof (rule distinct_singleton)
  show "distinct (filter (\<lambda>i. i \<notin> known) (first_occurrences (map user_id r)))"
    by (simp add: distinct_first_occurrences)
  show "set (filter (\<lambda>i. i \<notin> known) (first_occurrences (map user_id r))) = {d}"
    using assms by (auto simp: set_first_occurrences)
qed

text \<open>
  Claim C1. The next display order is the previous order restricted to the ids of the
  snapshot (relative order kept), followed by the ids of the snapshot that the previous
  order does not have, in the order in which they first appear in the snapshot; for a
  snapshot without repeated ids that is the snapshot's ids filtered. For a previous order
  a, b, c a roster with the ids b, c, d gives b, c, d and a roster with the ids
  a, b, c, d gives a, b, c, d.
\<close>

theorem C1_reconcile_contract:
  "reconcile prev roster =
     filter (\<lambda>i. i \<in> user_id ` set roster) prev @
     filter (\<lambda>i. i \<notin> set prev) (first_occurrences (map user_id roster))
   \<and> (distinct (map user_id roster) \<longrightarrow>
        reconcile prev roster =
          filter (\<lambda>i. i \<in> user_id ` set roster) prev @
          filter (\<lambda>i. i \<notin> set prev) (map user_id roster))
   \<and> (distinct [a, b, c, d] \<and> user_id ` set r1 = {b, c, d} \<longrightarrow>
        reconcile [a, b, c] r1 = [b, c, d])
   \<and> (distinct [a, b, c, d] \<and> user_id ` set r2 = {a, b, c, d} \<longrightarrow>
        reconcile [a, b, c] r2 = [a, b, c, d])"
proof (intro conjI impI)
  show "reconcile prev roster =
     filter (\<lambda>i. i \<in> user_id ` set roster) prev @
     filter (\<lambda>i. i \<notin> set prev) (first_occurrences (map user_id roster))"
    by (rule reconcile_eq)
next
  assume "distinct (map user_id roster)"
  then show "reconcile prev roster =
          filter (\<lambda>i. i \<in> user_id ` set roster) prev @
          filter (\<lambda>i. i \<notin> set prev) (map user_id roster)"
    by (simp add: reconcile_eq first_occurrences_distinct)
next
  assume h: "distinct [a, b, c, d] \<and> user_id ` set r1 = {b, c, d}"
  then have k: "filter (\<lambda>i. i \<in> user_id ` set r1) [a, b, c] = [b, c]"
    by auto
  have "user_id ` set r1 = insert d (set [b, c])" "d \<notin> set [b, c]"
    using h by auto
  then have "filter (\<lambda>i. i \<notin> set [b, c]) (first_occurrences (map user_id r1)) = [d]"
    by (rule additions_single)
  moreover have "filter (\<lambda>i. i \<notin> set [a, b, c]) (first_occurrences (map user_id r1)) =
      filter (\<lambda>i. i \<notin> set [b, c]) (first_occurrences (map user_id r1))"
    using h by (auto simp: set_first_occurrences intro!: filter_cong)
  ultimately show "reconcile [a, b, c] r1 = [b, c, d]"
    unfolding reconcile_eq k by simp
next
  assume h: "distinct [a, b, c, d] \<and> user_id ` set r2 = {a, b, c, d}"
  then have k: "filter (\<lambda>i. i \<in> user_id ` set r2) [a, b, c] = [a, b, c]"
    by auto
  have "user_id ` set r2 = insert d (set [a, b, c])" "d \<notin> set [a, b, c]"
    using h by auto
  then have "filter (\<lambda>i. i \<notin> set [a, b, c]) (first_occurrences (map user_id r2)) = [d]"
    by (rule additions_single)
  then show "reconcile [a, b, c] r2 = [a, b, c, d]"
    unfolding reconcile_eq k by simp
qed

lemma user_id_participant: "user_id (participant i) = i"
  by (simp add: participant_def)

theorem C1_reconcile_contract_witness:
  "distinct (map user_id [participant ''B'', participant ''C'', participant ''D''])
   \<and> distinct [''A'', ''B'', ''C'', ''D'']
   \<and> user_id ` set [participant ''B'', participant ''C'', participant ''D''] = {''B'', ''C'', ''D''}
   \<and> user_id ` set (map participant [''A'', ''B'', ''C'', ''D'']) = {''A'', ''B'', ''C'', ''D''}
   \<and> reconcile [''A'', ''B'', ''C''] [participant ''B'', participant ''C'', participant ''D'']
       = [''B'', ''C'', ''D'']
   \<and> reconcile [''A'', ''B'', ''C''] (map participant [''A'', ''B'', ''C'', ''D''])
       = [''A'', ''B'', ''C'', ''D'']"
  using C1_reconcile_contract [of "[''A'', ''B'', ''C'']"
      "[participant ''B'', participant ''C'', participant ''D'']"
      "''A''" "''B''" "''C''" "''D''"
      "[participant ''B'', participant ''C'', participant ''D'']"
      "map participant [''A'', ''B'', ''C'', ''D'']"]
  by (simp add: user_id_participant)

text \<open>
  Claim C2. Starting from the empty display order and reconciling with any sequence of
  snapshots, the display order holds exactly the ids of the latest snapshot, and each of
  them once.
\<close>

theorem C2_display_order_exact:
  "set (foldl reconcile [] (snapshots @ [latest])) = user_id ` set latest
   \<and> distinct (foldl reconcile [] (snapshots @ [latest]))"
proof
  show "set (foldl reconcile [] (snapshots @ [latest])) = user_id ` set latest"
    by (simp add: set_reconcile)
  have "distinct (foldl reconcile [] snapshots)"
    by (rule distinct_foldl_reconcile) simp
  then show "distinct (foldl reconcile [] (snapshots @ [latest]))"
    by (simp add: distinct_reconcile)
qed

text \<open>
  Claim C3. Reconciliation is a function of the previous order and the roster, and
  reconciling a second time with the same roster changes nothing.
\<close>

theorem C3_reconcile_idempotent: "reconcile (reconcile prev r) r = reconcile prev r"
proof -
  have s: "set (reconcile prev r) = user_id ` set r" by (rule set_reconcile)
  have "filter (\<lambda>i. i \<in> user_id ` set r) (reconcile prev r) = reconcile prev r"
    using s by (metis filter_True)
  moreover have "filter (\<lambda>i. i \<notin> set (reconcile prev r)) (first_occurrences (map user_id r)) = []"
    unfolding s by (simp add: filter_empty_conv set_first_occurrences)
  ultimately show ?thesis
    by (subst reconcile_eq) simp
qed

subsection \<open>The displayed list\<close>

lemma byId_fold_other:
  "i \<notin> user_id ` set roster \<Longrightarrow>
     foldl (\<lambda>m u. m(user_id u \<mapsto> u)) m0 roster i = m0 i"
  by (induction roster arbitrary: m0) auto

lemma byId_fold_member:
  "distinct (map user_id roster) \<Longrightarrow> u \<in> set roster \<Longrightarrow>
     foldl (\<lambda>m u. m(user_id u \<mapsto> u)) m0 roster (user_id u) = Some u"
proof (induction roster arbitrary: m0)
  case Nil
  then show ?case by simp
next
  case (Cons a rest)
  show ?case
  proof (cases "u = a")
    case True
    with Cons.prems have "user_id a \<notin> user_id ` set rest" by simp
    then have "foldl (\<lambda>m u. m(user_id u \<mapsto> u)) (m0(user_id a \<mapsto> a)) rest (user_id a) =
        (m0(user_id a \<mapsto> a)) (user_id a)"
      by (rule byId_fold_other)
    also have "\<dots> = Some a"
      by simp
    finally show ?thesis
      unfolding True foldl_Cons .
  next
    case False
    with Cons show ?thesis by simp
  qed
qed

lemma byId_of_None: "i \<notin> user_id ` set roster \<Longrightarrow> byId_of roster i = None"
  by (simp add: byId_of_def byId_fold_other)

lemma byId_of_Some:
  "distinct (map user_id roster) \<Longrightarrow> u \<in> set roster \<Longrightarrow> byId_of roster (user_id u) = Some u"
  by (simp add: byId_of_def byId_fold_member)

lemma byId_of_defined:
  "distinct (map user_id roster) \<Longrightarrow> byId_of roster i \<noteq> None \<longleftrightarrow> i \<in> user_id ` set roster"
  using byId_of_None byId_of_Some by (metis imageE option.distinct(1))

lemma push_missing_eq:
  "push_missing roster existing ordered =
     ordered @ filter (\<lambda>u. user_id u \<notin> existing) roster"
  by (induction roster arbitrary: ordered) simp_all

lemma found_users:
  assumes "distinct (map user_id roster)"
  shows "map the (filter (\<lambda>r. r \<noteq> None) (map (byId_of roster) order)) =
         map (\<lambda>i. the (byId_of roster i)) (filter (\<lambda>i. i \<in> user_id ` set roster) order)"
proof -
  have "filter (\<lambda>r. r \<noteq> None) (map (byId_of roster) order) =
        map (byId_of roster) (filter (\<lambda>i. byId_of roster i \<noteq> None) order)"
    by (simp add: filter_map comp_def)
  also have "filter (\<lambda>i. byId_of roster i \<noteq> None) order =
             filter (\<lambda>i. i \<in> user_id ` set roster) order"
    using byId_of_defined [OF assms] by (auto intro: filter_cong)
  finally show ?thesis by simp
qed

lemma found_users_ids:
  assumes "distinct (map user_id roster)"
  shows "map user_id (map (\<lambda>i. the (byId_of roster i)) (filter (\<lambda>i. i \<in> user_id ` set roster) order))
         = filter (\<lambda>i. i \<in> user_id ` set roster) order"
proof -
  have "\<And>i. i \<in> user_id ` set roster \<Longrightarrow> user_id (the (byId_of roster i)) = i"
    using byId_of_Some [OF assms] by auto
  then show ?thesis
    by (induction order) auto
qed

lemma all_known:
  assumes "distinct (map user_id roster)" and "distinct order"
    and "length (filter (\<lambda>i. i \<in> user_id ` set roster) order) = length roster"
  shows "user_id ` set roster \<subseteq> set order"
proof -
  let ?k = "filter (\<lambda>i. i \<in> user_id ` set roster) order"
  have "distinct ?k"
    using assms(2) by simp
  then have "card (set ?k) = length ?k"
    by (rule distinct_card)
  also have "\<dots> = card (user_id ` set roster)"
    using assms(1,3) by (metis distinct_card length_map list.set_map)
  finally have "card (set ?k) = card (user_id ` set roster)" .
  moreover have "set ?k \<subseteq> user_id ` set roster" by auto
  ultimately have "set ?k = user_id ` set roster"
    by (simp add: card_subset_eq)
  then show ?thesis by auto
qed

lemma orderedUsers_eq:
  assumes "distinct (map user_id roster)" and "distinct order"
  shows "orderedUsers roster order =
           map (\<lambda>i. the (byId_of roster i)) (filter (\<lambda>i. i \<in> user_id ` set roster) order) @
           filter (\<lambda>u. user_id u \<notin> set order) roster"
proof -
  let ?ordered = "map (\<lambda>i. the (byId_of roster i)) (filter (\<lambda>i. i \<in> user_id ` set roster) order)"
  have ids: "map user_id ?ordered = filter (\<lambda>i. i \<in> user_id ` set roster) order"
    by (rule found_users_ids [OF assms(1)])
  have ou: "orderedUsers roster order =
      (if length ?ordered = length roster then ?ordered
       else push_missing roster (set (map user_id ?ordered)) ?ordered)"
    by (simp only: orderedUsers_def Let_def found_users [OF assms(1)])
  show ?thesis
  proof (cases "length ?ordered = length roster")
    case True
    then have "user_id ` set roster \<subseteq> set order"
      using all_known [OF assms] by simp
    then have "filter (\<lambda>u. user_id u \<notin> set order) roster = []"
      by (auto simp: filter_empty_conv)
    with True show ?thesis
      unfolding ou by simp
  next
    case False
    have "filter (\<lambda>u. user_id u \<notin> set (map user_id ?ordered)) roster =
          filter (\<lambda>u. user_id u \<notin> set order) roster"
      unfolding ids by (auto intro: filter_cong)
    with False show ?thesis
      unfolding ou push_missing_eq by simp
  qed
qed

text \<open>
  Claim C10. For a roster without repeated ids and a display order without repeated
  ids, however stale (ids missing, ids the roster does not have): the displayed list has
  exactly the participants of the roster, each once; its ids are the ids of the order
  that the roster has, in the order's order, followed by the roster's ids that the order
  lacks, in roster order. The display order stored after any sequence of snapshots is
  such a list.
\<close>

theorem C10_orderedUsers_total:
  assumes "distinct (map user_id roster)" and "distinct order"
  shows "map user_id (orderedUsers roster order) =
           filter (\<lambda>i. i \<in> user_id ` set roster) order @
           filter (\<lambda>i. i \<notin> set order) (map user_id roster)
         \<and> set (orderedUsers roster order) = set roster
         \<and> distinct (orderedUsers roster order)
         \<and> distinct (foldl reconcile [] snapshots)"
proof -
  have stored: "distinct (foldl reconcile [] snapshots)"
    by (rule distinct_foldl_reconcile) simp
  let ?ordered = "map (\<lambda>i. the (byId_of roster i)) (filter (\<lambda>i. i \<in> user_id ` set roster) order)"
  have eq: "orderedUsers roster order = ?ordered @ filter (\<lambda>u. user_id u \<notin> set order) roster"
    by (rule orderedUsers_eq [OF assms])
  have ids: "map user_id (orderedUsers roster order) =
           filter (\<lambda>i. i \<in> user_id ` set roster) order @
           filter (\<lambda>i. i \<notin> set order) (map user_id roster)"
    unfolding eq map_append found_users_ids [OF assms(1)]
    by (simp add: filter_map comp_def)
  have "distinct (map user_id (orderedUsers roster order))"
    unfolding ids using assms by auto
  then have d: "distinct (orderedUsers roster order)"
    by (rule distinct_map [THEN iffD1, THEN conjunct1])
  have sub: "set ?ordered \<subseteq> set roster"
    using byId_of_Some [OF assms(1)] by auto
  have "set roster \<subseteq> set (orderedUsers roster order)"
  proof
    fix u assume u: "u \<in> set roster"
    show "u \<in> set (orderedUsers roster order)"
    proof (cases "user_id u \<in> set order")
      case True
      with u have "user_id u \<in> set (filter (\<lambda>i. i \<in> user_id ` set roster) order)" by auto
      then have "the (byId_of roster (user_id u)) \<in> set ?ordered" by (simp add: image_iff) blast
      with byId_of_Some [OF assms(1) u] show ?thesis unfolding eq by simp
    next
      case False
      with u show ?thesis unfolding eq by simp
    qed
  qed
  with sub have "set (orderedUsers roster order) = set roster"
    unfolding eq by auto
  with ids d stored show ?thesis by blast
qed

theorem C10_orderedUsers_total_witness:
  "distinct (map user_id (map participant [''A'', ''B'', ''C'']))
   \<and> distinct [''Z'', ''B'']
   \<and> map user_id (orderedUsers (map participant [''A'', ''B'', ''C'']) [''Z'', ''B''])
       = [''B'', ''A'', ''C'']
   \<and> set (orderedUsers (map participant [''A'', ''B'', ''C'']) [''Z'', ''B''])
       = set (map participant [''A'', ''B'', ''C''])"
proof -
  have r: "distinct (map user_id (map participant [''A'', ''B'', ''C'']))"
    by (simp add: user_id_participant)
  have d: "distinct [''Z'', ''B'']"
    by simp
  from C10_orderedUsers_total [OF r d] r d show ?thesis
    by (simp add: user_id_participant)
qed

subsection \<open>Roster handler\<close>

text \<open>
  Claim C8. A payload that is not an array leaves the whole state as it was (the roster
  and the display order with it), and the handler has no failing path; an array becomes
  the roster, whatever the roster was, and the display order is reconciled with it.
\<close>

theorem C8_users_update:
  "(\<not> Array_isArray payload \<longrightarrow> handler payload s = s \<and> on_users_update payload s = s)
   \<and> users (handler (JSArray roster) s) = roster
   \<and> on_users_update (JSArray roster) s =
       s\<lparr>users := roster, userOrder := reconcile (userOrder s) roster\<rparr>"
  by (cases payload) (simp_all add: handler_def on_users_update_def users_effect_def)

theorem C8_users_update_witness:
  "\<not> Array_isArray (JSString ''hello'')
   \<and> on_users_update (JSString ''hello'')
        (on_users_update (JSArray [participant ''A'', participant ''B'']) (initial_app None 1))
       = on_users_update (JSArray [participant ''A'', participant ''B'']) (initial_app None 1)
   \<and> userOrder (on_users_update (JSString ''hello'')
        (on_users_update (JSArray [participant ''A'', participant ''B'']) (initial_app None 1)))
       = [''A'', ''B'']"
  using C8_users_update [of "JSString ''hello''"
      "on_users_update (JSArray [participant ''A'', participant ''B'']) (initial_app None 1)" "[]"]
  by (simp add: on_users_update_def handler_def users_effect_def initial_app_def
      reconcile_def participant_def)

subsection \<open>Map surface\<close>

text \<open>
  Claim C9. A focus target whose token differs from the previous render's (or that
  follows no target), whatever its coordinates: the centre becomes the target's
  coordinates, the zoom becomes the larger of the previous zoom and 15, so at least 15
  and at least the previous zoom, and bearing and pitch stay. A target with the previous
  token causes no transition.
\<close>

theorem C9_focus_transition:
  "(focus_dep prev \<noteq> Some (key ft) \<longrightarrow>
     center (live_map_rerender prev (Some ft) v) = (lng ft, lat ft)
     \<and> zoom (live_map_rerender prev (Some ft) v) = max (zoom v) 15
     \<and> 15 \<le> zoom (live_map_rerender prev (Some ft) v)
     \<and> zoom v \<le> zoom (live_map_rerender prev (Some ft) v)
     \<and> bearing (live_map_rerender prev (Some ft) v) = bearing v
     \<and> pitch (live_map_rerender prev (Some ft) v) = pitch v)
   \<and> (focus_dep prev = Some (key ft) \<longrightarrow> live_map_rerender prev (Some ft) v = v)"
  by (cases prev) (auto simp: live_map_rerender_def focus_effect_def focus_dep_def)

theorem C9_focus_transition_witness:
  "focus_dep (Some \<lparr>lat = 1, lng = 2, key = 100\<rparr>) \<noteq> Some (key \<lparr>lat = 1, lng = 2, key = 101\<rparr>)
   \<and> center (live_map_rerender (Some \<lparr>lat = 1, lng = 2, key = 100\<rparr>)
        (Some \<lparr>lat = 1, lng = 2, key = 101\<rparr>) initial_viewport) = (2, 1)
   \<and> zoom (live_map_rerender (Some \<lparr>lat = 1, lng = 2, key = 100\<rparr>)
        (Some \<lparr>lat = 1, lng = 2, key = 101\<rparr>) initial_viewport) = 15
   \<and> zoom (live_map_rerender (Some \<lparr>lat = 1, lng = 2, key = 100\<rparr>)
        (Some \<lparr>lat = 1, lng = 2, key = 101\<rparr>) (initial_viewport\<lparr>zoom := 17\<rparr>)) = 17"
  using C9_focus_transition [of "Some \<lparr>lat = 1, lng = 2, key = 100\<rparr>"
      "\<lparr>lat = 1, lng = 2, key = 101\<rparr>" initial_viewport]
    C9_focus_transition [of "Some \<lparr>lat = 1, lng = 2, key = 100\<rparr>"
      "\<lparr>lat = 1, lng = 2, key = 101\<rparr>" "initial_viewport\<lparr>zoom := 17\<rparr>"]
  by (simp add: focus_dep_def initial_viewport_def)

subsection \<open>Focus selection\<close>

text \<open>
  Claim C7, amended. Selecting the participant whose id is the local connection's id
  changes nothing. Selecting another participant sets the focused id to its id and the
  focus target to its coordinates with the clock reading of the selection as token; two
  selections in succession have distinct tokens whenever their clock readings differ,
  also when the coordinates are the same.
\<close>

theorem C7_focusOnUser:
  "(Some (user_id u) = sid \<longrightarrow> focusOnUser sid t u s = s)
   \<and> (Some (user_id u) \<noteq> sid \<longrightarrow>
        focusOnUser sid t u s =
          s\<lparr>focusedUserId := Some (user_id u),
            mapFocusTarget := Some \<lparr>lat = lat u, lng = lng u, key = t\<rparr>\<rparr>)
   \<and> (Some (user_id u) \<noteq> sid \<and> Some (user_id u') \<noteq> sid \<and> t \<noteq> t' \<longrightarrow>
        focus_dep (mapFocusTarget (focusOnUser sid t' u' (focusOnUser sid t u s))) \<noteq>
        focus_dep (mapFocusTarget (focusOnUser sid t u s)))"
  by (simp add: focusOnUser_def focus_dep_def)

theorem C7_focusOnUser_witness:
  "Some (user_id (participant ''B'')) \<noteq> Some ''A''
   \<and> (1730000000000::int) \<noteq> 1730000000001
   \<and> focusOnUser (Some ''A'') 1730000000000 (participant ''A'') (initial_app None 1)
       = initial_app None 1
   \<and> focus_dep (mapFocusTarget (focusOnUser (Some ''A'') 1730000000001 (participant ''B'')
         (focusOnUser (Some ''A'') 1730000000000 (participant ''B'') (initial_app None 1)))) \<noteq>
       focus_dep (mapFocusTarget
         (focusOnUser (Some ''A'') 1730000000000 (participant ''B'') (initial_app None 1)))"
proof -
  have h: "Some (user_id (participant ''B'')) \<noteq> Some ''A''"
    by (simp add: participant_def)
  have t: "(1730000000000::int) \<noteq> 1730000000001"
    by simp
  have own: "Some (user_id (participant ''A'')) = Some ''A''"
    by (simp add: participant_def)
  from C7_focusOnUser [of "participant ''A''" "Some ''A''" 1730000000000 "initial_app None 1"]
    own
  have a: "focusOnUser (Some ''A'') 1730000000000 (participant ''A'') (initial_app None 1)
      = initial_app None 1"
    by blast
  from C7_focusOnUser [of "participant ''B''" "Some ''A''" 1730000000000 "initial_app None 1"
      "participant ''B''" 1730000000001] h t
  have b: "focus_dep (mapFocusTarget (focusOnUser (Some ''A'') 1730000000001 (participant ''B'')
         (focusOnUser (Some ''A'') 1730000000000 (participant ''B'') (initial_app None 1)))) \<noteq>
       focus_dep (mapFocusTarget
         (focusOnUser (Some ''A'') 1730000000000 (participant ''B'') (initial_app None 1)))"
    by blast
  from h t a b show ?thesis by blast
qed

text \<open>
  Claim C7 as stated fails: two selections with the same clock reading (the clock counts
  milliseconds) have the same token.
\<close>

theorem C7_same_clock_counterexample:
  "\<not> (focus_dep (mapFocusTarget (focusOnUser (Some ''A'') 1730000000000 (participant ''B'')
         (focusOnUser (Some ''A'') 1730000000000 (participant ''B'') (initial_app None 1)))) \<noteq>
       focus_dep (mapFocusTarget
         (focusOnUser (Some ''A'') 1730000000000 (participant ''B'') (initial_app None 1))))"
  by (simp add: focusOnUser_def focus_dep_def participant_def)

subsection \<open>Endpoint resolution\<close>

lemma trim_example: "trim ''http://[::1]:3001'' = ''http://[::1]:3001''"
  by (simp add: trim_def white_space_encodings_def strip_leading.simps)

text \<open>
  Claim C4. A configured URL whose host is the loopback address \<open>::1\<close> is not
  recognised as loopback: the code compares the parsed hostname with \<open>::1\<close>, and the
  hostname of such a URL is \<open>[::1]\<close>. With \<open>http://[::1]:3001\<close> configured, on any
  page, also one loaded from another host, the result is the configured URL and not the
  page's origin.
\<close>

theorem C4_ipv6_loopback_kept:
  "parse_url ''http://[::1]:3001'' =
      Some \<lparr>hostname = ''[::1]'', href = ''http://[::1]:3001/''\<rparr> \<longrightarrow>
   resolveSocketUrl parse_url (Some ''http://[::1]:3001'') (Some w) = ''http://[::1]:3001/''"
  by (simp add: resolveSocketUrl_def trim_example)

theorem C4_ipv6_loopback_kept_witness:
  "sample_parse_url ''http://[::1]:3001'' =
      Some \<lparr>hostname = ''[::1]'', href = ''http://[::1]:3001/''\<rparr>
   \<and> hostname lan_page \<noteq> ''localhost'' \<and> hostname lan_page \<noteq> ''127.0.0.1''
   \<and> resolveSocketUrl sample_parse_url (Some ''http://[::1]:3001'') (Some lan_page) =
       ''http://[::1]:3001/''
   \<and> resolveSocketUrl sample_parse_url (Some ''http://[::1]:3001'') (Some lan_page) \<noteq>
       origin lan_page"
proof -
  have p: "sample_parse_url ''http://[::1]:3001'' =
      Some \<lparr>hostname = ''[::1]'', href = ''http://[::1]:3001/''\<rparr>"
    by (simp add: sample_parse_url_def)
  from C4_ipv6_loopback_kept [of sample_parse_url lan_page] p
  have r: "resolveSocketUrl sample_parse_url (Some ''http://[::1]:3001'') (Some lan_page) =
      ''http://[::1]:3001/''"
    by blast
  from p r show ?thesis
    by (simp add: lan_page_def)
qed

subsection \<open>Geolocation\<close>

lemma run_geo_snoc: "run_geo (events @ [ev]) s = geo_step (run_geo events s) ev"
  by (simp add: run_geo_def)

lemma run_geo_append: "run_geo (xs @ ys) s = run_geo ys (run_geo xs s)"
  by (simp add: run_geo_def)

lemma watch_success_emitted:
  "emitted (watch_success now pos s) =
     (if now - lastSentAt s < 2000 then emitted s else emitted s @ [(now, pos)])"
  by (simp add: watch_success_def clear_retry_timeout_def Let_def split: option.splits)

lemma watch_success_lastSentAt:
  "lastSentAt (watch_success now pos s) =
     (if now - lastSentAt s < 2000 then lastSentAt s else now)"
  by (simp add: watch_success_def clear_retry_timeout_def Let_def split: option.splits)

lemma watch_success_me: "me (watch_success now pos s) = Some pos"
  by (simp add: watch_success_def clear_retry_timeout_def Let_def split: option.splits)

lemma watch_error_emitted: "emitted (watch_error err s) = emitted s"
  by (simp add: watch_error_def clear_retry_timeout_def startWatch_def watchPosition_def
      clearWatch_def split: option.splits)

lemma watch_error_lastSentAt: "lastSentAt (watch_error err s) = lastSentAt s"
  by (simp add: watch_error_def clear_retry_timeout_def startWatch_def watchPosition_def
      clearWatch_def split: option.splits)

lemma geo_step_sent_invariant:
  "lastSentAt s = last_sent_time (emitted s) \<Longrightarrow>
     lastSentAt (geo_step s ev) = last_sent_time (emitted (geo_step s ev))"
  by (cases ev)
    (simp_all add: watch_success_emitted watch_success_lastSentAt watch_error_emitted
      watch_error_lastSentAt last_sent_time_def)

lemma run_geo_sent_invariant:
  "lastSentAt s = last_sent_time (emitted s) \<Longrightarrow>
     lastSentAt (run_geo events s) = last_sent_time (emitted (run_geo events s))"
proof (induction events rule: rev_induct)
  case Nil
  then show ?case by (simp add: run_geo_def)
next
  case (snoc ev events)
  then show ?case
    by (simp only: run_geo_snoc geo_step_sent_invariant)
qed

lemma activation_sent:
  "lastSentAt (activated e w) = 0"
  "emitted (activated e w) = []"
  by (simp_all add: geolocation_effect_def startWatch_def watchPosition_def initial_app_def)

lemma initial_sent_invariant:
  "lastSentAt (activated e w) =
     last_sent_time (emitted (activated e w))"
  by (simp add: activation_sent last_sent_time_def)

text \<open>
  Claim C5. In an activation from the initial state, after any earlier callbacks of the
  watch, a sample read at a clock
  value of at least 2000 (the clock counts ms since 1970) is transmitted if and only if
  nothing was transmitted before or at least 2000 ms have passed since the last
  transmitted sample; in either case it becomes the local position. So the first sample
  is transmitted, of two samples 500 ms apart one is transmitted, and of two samples
  2100 ms apart both are.
\<close>

theorem C5_throttle:
  "(2000 \<le> t \<longrightarrow>
      emitted (run_geo (pre @ [Position t p]) (activated e w)) =
        (if emitted (run_geo pre (activated e w)) = [] \<or>
            2000 \<le> t - fst (last (emitted (run_geo pre (activated e w))))
         then emitted (run_geo pre (activated e w)) @ [(t, p)]
         else emitted (run_geo pre (activated e w))))
   \<and> me (run_geo (pre @ [Position t p]) (activated e w)) = Some p
   \<and> (2000 \<le> t \<longrightarrow>
        emitted (run_geo [Position t p, Position (t + 500) q] (activated e w)) = [(t, p)]
        \<and> me (run_geo [Position t p, Position (t + 500) q] (activated e w)) = Some q)
   \<and> (2000 \<le> t \<longrightarrow>
        emitted (run_geo [Position t p, Position (t + 2100) q] (activated e w)) =
          [(t, p), (t + 2100, q)])"
proof (intro conjI impI)
  let ?s = "run_geo pre (activated e w)"
  have inv: "lastSentAt ?s = last_sent_time (emitted ?s)"
    by (rule run_geo_sent_invariant [OF initial_sent_invariant])
  assume "2000 \<le> t"
  then show "emitted (run_geo (pre @ [Position t p]) (activated e w)) =
        (if emitted ?s = [] \<or> 2000 \<le> t - fst (last (emitted ?s))
         then emitted ?s @ [(t, p)] else emitted ?s)"
    by (simp add: run_geo_snoc watch_success_emitted inv last_sent_time_def)
next
  show "me (run_geo (pre @ [Position t p]) (activated e w)) = Some p"
    by (simp add: run_geo_snoc watch_success_me)
next
  note l0 = activation_sent [of e w]
  assume "2000 \<le> t"
  then show "emitted (run_geo [Position t p, Position (t + 500) q] (activated e w)) = [(t, p)]"
    by (simp add: run_geo_def watch_success_emitted watch_success_lastSentAt l0)
next
  show "me (run_geo [Position t p, Position (t + 500) q] (activated e w)) = Some q"
    by (simp add: run_geo_def watch_success_me)
next
  note l0 = activation_sent [of e w]
  assume "2000 \<le> t"
  then show "emitted (run_geo [Position t p, Position (t + 2100) q] (activated e w)) =
          [(t, p), (t + 2100, q)]"
    by (simp add: run_geo_def watch_success_emitted watch_success_lastSentAt l0)
qed

theorem C5_throttle_witness:
  "(2000::int) \<le> 1730000000000
   \<and> emitted (run_geo ([] @ [Position 1730000000000 \<lparr>lat = 1, lng = 2\<rparr>]) (activated None 1))
       = [(1730000000000, \<lparr>lat = 1, lng = 2\<rparr>)]
   \<and> emitted (run_geo [Position 1730000000000 \<lparr>lat = 1, lng = 2\<rparr>,
          Position (1730000000000 + 500) \<lparr>lat = 3, lng = 4\<rparr>] (activated None 1))
       = [(1730000000000, \<lparr>lat = 1, lng = 2\<rparr>)]
   \<and> me (run_geo [Position 1730000000000 \<lparr>lat = 1, lng = 2\<rparr>,
          Position (1730000000000 + 500) \<lparr>lat = 3, lng = 4\<rparr>] (activated None 1))
       = Some \<lparr>lat = 3, lng = 4\<rparr>
   \<and> emitted (run_geo [Position 1730000000000 \<lparr>lat = 1, lng = 2\<rparr>,
          Position (1730000000000 + 2100) \<lparr>lat = 3, lng = 4\<rparr>] (activated None 1))
       = [(1730000000000, \<lparr>lat = 1, lng = 2\<rparr>), (1730000000000 + 2100, \<lparr>lat = 3, lng = 4\<rparr>)]"
proof -
  have t: "(2000::int) \<le> 1730000000000"
    by simp
  have e: "emitted (run_geo [] (activated None 1)) = []"
    by (simp add: run_geo_def activation_sent)
  from C5_throttle [of 1730000000000 "[]" "\<lparr>lat = 1, lng = 2\<rparr>" None 1
      "\<lparr>lat = 3, lng = 4\<rparr>"] t e
  show ?thesis
    by simp
qed

lemma activation_in_tier:
  "in_tier high_accuracy_tier False w (activated e w)"
  by (simp add: in_tier_def geolocation_effect_def startWatch_def watchPosition_def
      initial_app_def high_accuracy_tier_def)

lemma watch_success_in_tier:
  "in_tier opts fb i s \<Longrightarrow> in_tier opts fb i (watch_success now pos s)"
  by (simp add: in_tier_def watch_success_def clear_retry_timeout_def Let_def
      split: option.splits)

lemma watch_error_other_in_tier:
  "in_tier opts fb i s \<Longrightarrow> code err \<noteq> 3 \<or> fb \<Longrightarrow> in_tier opts fb i (watch_error err s)"
  by (auto simp: in_tier_def watch_error_def clear_retry_timeout_def split: option.splits)

lemma watch_error_reported:
  "code err \<noteq> 3 \<or> fallbackMode s \<Longrightarrow>
     geoError (watch_error err s) = Some (geolocationErrorMessage err)"
  by (auto simp: watch_error_def clear_retry_timeout_def split: option.splits)

lemma watch_error_downgrade:
  "in_tier opts False i s \<Longrightarrow> code err = 3 \<Longrightarrow>
     in_tier fallback_tier True (i + 1) (watch_error err s) \<and>
     geoError (watch_error err s) = Some msg_fallback"
  by (simp add: in_tier_def watch_error_def startWatch_def watchPosition_def clearWatch_def
      fallback_tier_def)

lemma run_geo_no_timeout_in_tier:
  "in_tier opts fb i s \<Longrightarrow> \<forall>ev \<in> set events. \<not> is_timeout ev \<Longrightarrow>
     in_tier opts fb i (run_geo events s)"
proof (induction events rule: rev_induct)
  case Nil
  then show ?case by (simp add: run_geo_def)
next
  case (snoc ev events)
  then have tier: "in_tier opts fb i (run_geo events s)" and ev: "\<not> is_timeout ev"
    by simp_all
  show ?case
  proof (cases ev)
    case (Position now pos)
    with tier show ?thesis
      by (simp add: run_geo_snoc watch_success_in_tier)
  next
    case (Failure err)
    with tier ev show ?thesis
      by (simp add: run_geo_snoc watch_error_other_in_tier)
  qed
qed

lemma run_geo_fallback_in_tier:
  "in_tier opts True i s \<Longrightarrow> in_tier opts True i (run_geo events s)"
proof (induction events rule: rev_induct)
  case Nil
  then show ?case by (simp add: run_geo_def)
next
  case (snoc ev events)
  then have tier: "in_tier opts True i (run_geo events s)"
    by simp
  show ?case
  proof (cases ev)
    case (Position now pos)
    with tier show ?thesis
      by (simp add: run_geo_snoc watch_success_in_tier)
  next
    case (Failure err)
    with tier show ?thesis
      by (simp add: run_geo_snoc watch_error_other_in_tier)
  qed
qed

lemma geo_step_started: "started i s \<Longrightarrow> started i (geo_step s ev)"
proof (cases ev)
  case (Position now pos)
  assume "started i s"
  then show ?thesis
    unfolding started_def Position geo_step.simps
    using watch_success_in_tier by blast
next
  case (Failure err)
  assume "started i s"
  then consider opts where "in_tier opts False i s"
    | opts j where "in_tier opts True j s" "j = i \<or> j = i + 1"
    unfolding started_def by blast
  then show ?thesis
  proof cases
    case 1
    show ?thesis
    proof (cases "code err = 3")
      case True
      from watch_error_downgrade [OF 1 True] show ?thesis
        unfolding started_def Failure geo_step.simps by blast
    next
      case False
      then have "in_tier opts False i (watch_error err s)"
        by (intro watch_error_other_in_tier [OF 1]) simp
      then show ?thesis
        unfolding started_def Failure geo_step.simps by blast
    qed
  next
    case 2
    have "in_tier opts True j (watch_error err s)"
      by (intro watch_error_other_in_tier [OF 2(1)]) simp
    with 2(2) show ?thesis
      unfolding started_def Failure geo_step.simps by blast
  qed
qed

lemma run_geo_started: "started i s \<Longrightarrow> started i (run_geo events s)"
proof (induction events rule: rev_induct)
  case Nil
  then show ?case by (simp add: run_geo_def)
next
  case (snoc ev events)
  then show ?case
    by (simp only: run_geo_snoc geo_step_started)
qed

lemma started_nextWatchId: "started i s \<Longrightarrow> nextWatchId s \<le> i + 2"
  unfolding started_def in_tier_def by auto

lemma timeout_message: "code err = 3 \<Longrightarrow> geolocationErrorMessage err = msg_timeout"
  by (simp add: geolocationErrorMessage_def)

lemma msg_fallback_not_timeout: "msg_fallback \<noteq> msg_timeout"
  by (simp add: msg_fallback_def msg_timeout_def)

text \<open>
  Claim C6. An activation starts one watch in the high-accuracy tier. After any callbacks
  without a timeout, the first timeout (code 3) removes that watch and registers one
  watch in the fallback tier; the message set is the notice of the retry, not the report
  of the error. From then on, after any further callbacks, the fallback watch is the only
  watch and no watch has been started since, and a timeout is reported by its message and
  starts nothing. Over any callbacks whatsoever an activation starts at most two watches.
\<close>

theorem C6_single_fallback:
  "(\<forall>ev \<in> set pre. \<not> is_timeout ev) \<and> code err = 3 \<and> code err' = 3 \<longrightarrow>
     watches (run_geo pre (activated e w)) =
       [(w, high_accuracy_tier)]
     \<and> watches (run_geo (pre @ [Failure err]) (activated e w)) =
       [(w + 1, fallback_tier)]
     \<and> geoError (run_geo (pre @ [Failure err]) (activated e w)) =
       Some msg_fallback
     \<and> msg_fallback \<noteq> geolocationErrorMessage err
     \<and> watches (run_geo (pre @ [Failure err] @ post)
          (activated e w)) = [(w + 1, fallback_tier)]
     \<and> nextWatchId (run_geo (pre @ [Failure err] @ post)
          (activated e w)) = w + 2
     \<and> watches (run_geo (pre @ [Failure err] @ post @ [Failure err'])
          (activated e w)) = [(w + 1, fallback_tier)]
     \<and> nextWatchId (run_geo (pre @ [Failure err] @ post @ [Failure err'])
          (activated e w)) = w + 2
     \<and> geoError (run_geo (pre @ [Failure err] @ post @ [Failure err'])
          (activated e w)) = Some (geolocationErrorMessage err')
     \<and> nextWatchId (run_geo events (activated e w)) \<le> w + 2"
proof (intro impI)
  let ?s0 = "activated e w"
  assume h: "(\<forall>ev \<in> set pre. \<not> is_timeout ev) \<and> code err = 3 \<and> code err' = 3"
  have t0: "in_tier high_accuracy_tier False w (run_geo pre ?s0)"
  proof (rule run_geo_no_timeout_in_tier [OF activation_in_tier])
    show "\<forall>ev \<in> set pre. \<not> is_timeout ev" using h by (rule conjunct1)
  qed
  have c: "code err = 3" and c': "code err' = 3"
    using h by blast+
  have step1: "run_geo (pre @ [Failure err]) ?s0 = watch_error err (run_geo pre ?s0)"
    by (simp only: run_geo_snoc geo_step.simps)
  have t1: "in_tier fallback_tier True (w + 1) (run_geo (pre @ [Failure err]) ?s0)"
    and g1: "geoError (run_geo (pre @ [Failure err]) ?s0) = Some msg_fallback"
    unfolding step1 using watch_error_downgrade [OF t0 c] by blast+
  have split2: "run_geo (pre @ [Failure err] @ post) ?s0 =
      run_geo post (run_geo (pre @ [Failure err]) ?s0)"
    by (simp only: run_geo_append [symmetric] append_assoc)
  have t2: "in_tier fallback_tier True (w + 1) (run_geo (pre @ [Failure err] @ post) ?s0)"
    unfolding split2 by (rule run_geo_fallback_in_tier [OF t1])
  have step3: "run_geo (pre @ [Failure err] @ post @ [Failure err']) ?s0 =
      watch_error err' (run_geo (pre @ [Failure err] @ post) ?s0)"
    using run_geo_snoc [of "pre @ [Failure err] @ post" "Failure err'" ?s0]
    by (simp only: append_assoc geo_step.simps)
  have fb2: "fallbackMode (run_geo (pre @ [Failure err] @ post) ?s0)"
    using t2 by (simp only: in_tier_def)
  have t3: "in_tier fallback_tier True (w + 1)
      (run_geo (pre @ [Failure err] @ post @ [Failure err']) ?s0)"
    unfolding step3 by (rule watch_error_other_in_tier [OF t2]) simp
  have g3: "geoError (run_geo (pre @ [Failure err] @ post @ [Failure err']) ?s0) =
      Some (geolocationErrorMessage err')"
    unfolding step3 using fb2 by (intro watch_error_reported disjI2)
  have m: "msg_fallback \<noteq> geolocationErrorMessage err"
    unfolding timeout_message [OF c] by (rule msg_fallback_not_timeout)
  have "started w ?s0"
    unfolding started_def using activation_in_tier by blast
  then have n: "nextWatchId (run_geo events ?s0) \<le> w + 2"
    by (intro started_nextWatchId run_geo_started)
  have w0: "watches (run_geo pre ?s0) = [(w, high_accuracy_tier)]"
    using t0 by (simp add: in_tier_def)
  have w1: "watches (run_geo (pre @ [Failure err]) ?s0) = [(w + 1, fallback_tier)]"
    using t1 by (simp add: in_tier_def)
  have w2: "watches (run_geo (pre @ [Failure err] @ post) ?s0) = [(w + 1, fallback_tier)]"
    and n2: "nextWatchId (run_geo (pre @ [Failure err] @ post) ?s0) = w + 2"
    using t2 by (simp_all add: in_tier_def)
  have w3: "watches (run_geo (pre @ [Failure err] @ post @ [Failure err']) ?s0) =
      [(w + 1, fallback_tier)]"
    and n3: "nextWatchId (run_geo (pre @ [Failure err] @ post @ [Failure err']) ?s0) = w + 2"
    using t3 by (simp_all add: in_tier_def)
  show "watches (run_geo pre ?s0) = [(w, high_accuracy_tier)]
     \<and> watches (run_geo (pre @ [Failure err]) ?s0) = [(w + 1, fallback_tier)]
     \<and> geoError (run_geo (pre @ [Failure err]) ?s0) = Some msg_fallback
     \<and> msg_fallback \<noteq> geolocationErrorMessage err
     \<and> watches (run_geo (pre @ [Failure err] @ post) ?s0) = [(w + 1, fallback_tier)]
     \<and> nextWatchId (run_geo (pre @ [Failure err] @ post) ?s0) = w + 2
     \<and> watches (run_geo (pre @ [Failure err] @ post @ [Failure err']) ?s0) =
         [(w + 1, fallback_tier)]
     \<and> nextWatchId (run_geo (pre @ [Failure err] @ post @ [Failure err']) ?s0) = w + 2
     \<and> geoError (run_geo (pre @ [Failure err] @ post @ [Failure err']) ?s0) =
         Some (geolocationErrorMessage err')
     \<and> nextWatchId (run_geo events ?s0) \<le> w + 2"
    by (intro conjI) (fact w0 w1 g1 m w2 n2 w3 n3 g3 n)+
qed

theorem C6_single_fallback_witness:
  "\<not> is_timeout (Position 1730000000000 \<lparr>lat = 1, lng = 2\<rparr>)
   \<and> code \<lparr>code = 3, message = ''Timeout expired''\<rparr> = 3
   \<and> watches (run_geo ([Position 1730000000000 \<lparr>lat = 1, lng = 2\<rparr>] @
          [Failure \<lparr>code = 3, message = ''Timeout expired''\<rparr>])
          (activated None 1)) = [(1 + 1, fallback_tier)]
   \<and> geoError (run_geo ([Position 1730000000000 \<lparr>lat = 1, lng = 2\<rparr>] @
          [Failure \<lparr>code = 3, message = ''Timeout expired''\<rparr>])
          (activated None 1)) = Some msg_fallback
   \<and> geoError (run_geo ([Position 1730000000000 \<lparr>lat = 1, lng = 2\<rparr>] @
          [Failure \<lparr>code = 3, message = ''Timeout expired''\<rparr>] @ [] @
          [Failure \<lparr>code = 3, message = ''Timeout expired''\<rparr>])
          (activated None 1)) = Some msg_timeout
   \<and> watches (run_geo ([Position 1730000000000 \<lparr>lat = 1, lng = 2\<rparr>] @
          [Failure \<lparr>code = 3, message = ''Timeout expired''\<rparr>] @ [] @
          [Failure \<lparr>code = 3, message = ''Timeout expired''\<rparr>])
          (activated None 1)) = [(1 + 1, fallback_tier)]"
proof -
  have h: "(\<forall>ev \<in> set [Position 1730000000000 \<lparr>lat = 1, lng = 2\<rparr>]. \<not> is_timeout ev)
      \<and> code \<lparr>code = 3, message = ''Timeout expired''\<rparr> = 3
      \<and> code \<lparr>code = 3, message = ''Timeout expired''\<rparr> = 3"
    by simp
  have m: "geolocationErrorMessage \<lparr>code = 3, message = ''Timeout expired''\<rparr> = msg_timeout"
    by (simp add: geolocationErrorMessage_def)
  note r = C6_single_fallback [of "[Position 1730000000000 \<lparr>lat = 1, lng = 2\<rparr>]"
      "\<lparr>code = 3, message = ''Timeout expired''\<rparr>"
      "\<lparr>code = 3, message = ''Timeout expired''\<rparr>" None 1 "[]" "[]", THEN mp, OF h]
  from r h m show ?thesis
    by simp
qed

end
